theory Spec2Isabelle
  imports Complex_Main "HOL-Library.Log_Nat"
begin

section \<open>Go's machine arithmetic\<close>

text \<open>
  \<^verbatim>\<open>int64\<close> values are integers kept in two's complement range by \<open>wrap64\<close>, which is
  written at every \<^verbatim>\<open>int64\<close> operation of the source that can leave the range.
  Go's integer division truncates toward zero (\<open>tdiv\<close>); HOL's \<open>div\<close> rounds down.
\<close>

definition wrap64 :: "int \<Rightarrow> int" where
  "wrap64 n = (n + 2 ^ 63) mod 2 ^ 64 - 2 ^ 63"

definition tdiv :: "int \<Rightarrow> int \<Rightarrow> int" where
  "tdiv a b = (if (a < 0) = (b < 0) then \<bar>a\<bar> div \<bar>b\<bar> else - (\<bar>a\<bar> div \<bar>b\<bar>))"

text \<open>
  A finite \<^verbatim>\<open>float64\<close> is the rational number it denotes. An arithmetic operation
  computes the exact result and rounds it to the nearest binary64 value, ties to even
  (\<open>f64_round\<close>): 53 significant bits in the binade \<open>ilog2 x\<close> of the value, and the fixed
  quantum \<open>2 powi - 1074\<close> below the smallest normal number. NaN and the infinities are
  not values of the model; no product of a millisecond count with a weight of magnitude
  at most 1 reaches them.
\<close>

type_synonym float64 = rat

definition ilog2 :: "rat \<Rightarrow> int" where
  "ilog2 x = (case quotient_of \<bar>x\<bar> of (a, b) \<Rightarrow>
     (let d = bitlen a - bitlen b in if 2 powi d \<le> \<bar>x\<bar> then d else d - 1))"

definition round_half_even :: "rat \<Rightarrow> int" where
  "round_half_even y = (let f = \<lfloor>y\<rfloor>; r = y - of_int f in
     if r < 1 / 2 then f else if 1 / 2 < r then f + 1 else if even f then f else f + 1)"

definition f64_round :: "rat \<Rightarrow> float64" where
  "f64_round x = (if x = 0 then 0 else
     (let e = max (ilog2 x) (- 1022); q = 2 powi (e - 52)
      in of_int (round_half_even (x / q)) * q))"

text \<open>\<^verbatim>\<open>float64(n)\<close> for an integer \<open>n\<close>, and the product \<^verbatim>\<open>x * y\<close> of two \<^verbatim>\<open>float64\<close>.\<close>

definition f64_of_int :: "int \<Rightarrow> float64" where
  "f64_of_int n = f64_round (of_int n)"

definition f64_mul :: "float64 \<Rightarrow> float64 \<Rightarrow> float64" where
  "f64_mul x y = f64_round (x * y)"

text \<open>
  \<^verbatim>\<open>time.Duration(x)\<close> for a \<^verbatim>\<open>float64\<close> \<open>x\<close>: the fraction is discarded (truncation
  toward zero). Outside the \<^verbatim>\<open>int64\<close> range Go leaves the result to the implementation;
  the value written here is the one of amd64.
\<close>

definition trunc :: "rat \<Rightarrow> int" where
  "trunc x = (if 0 \<le> x then \<lfloor>x\<rfloor> else \<lceil>x\<rceil>)"

definition int64_of_f64 :: "float64 \<Rightarrow> int" where
  "int64_of_f64 x = (if - (2 ^ 63) \<le> trunc x \<and> trunc x < 2 ^ 63 then trunc x else - (2 ^ 63))"


section \<open>Time and contexts\<close>

text \<open>
  A \<^verbatim>\<open>time.Time\<close> is its number of nanoseconds since the Unix epoch, a \<^verbatim>\<open>time.Duration\<close>
  an \<^verbatim>\<open>int64\<close> count of nanoseconds. \<^verbatim>\<open>UnixNano\<close> is an \<^verbatim>\<open>int64\<close>. The zero
  \<^verbatim>\<open>Time\<close> is 1 January of year 1.

  Of a \<^verbatim>\<open>context.Context\<close> the package reads the deadline only, so a context is its
  deadline, if it has one; \<^verbatim>\<open>context.Background()\<close> has none. The cancel functions
  returned beside a context change no deadline and are left out.
  \<^verbatim>\<open>context.WithTimeout(parent, d)\<close> is \<^verbatim>\<open>WithDeadline(parent, time.Now().Add(d))\<close>, and
  \<^verbatim>\<open>WithDeadline\<close> keeps the parent's deadline when that one is before the new one.
  The reading of the clock that a call makes is an argument of its model.
\<close>

type_synonym Time = int
type_synonym Duration = int
type_synonym "context" = "Time option"

definition Millisecond :: Duration where
  "Millisecond = 1000000"

definition zeroTime :: Time where
  "zeroTime = - 62135596800 * 1000000000"

definition UnixNano :: "Time \<Rightarrow> int" where
  "UnixNano t = wrap64 t"

definition Background :: "context" where
  "Background = None"

definition Deadline :: "context \<Rightarrow> Time" where
  "Deadline ctx = (case ctx of None \<Rightarrow> zeroTime | Some d \<Rightarrow> d)"

definition context_WithTimeout :: "context \<Rightarrow> Duration \<Rightarrow> Time \<Rightarrow> context" where
  "context_WithTimeout parent d now =
     (let dl = now + d in
      case parent of
        None \<Rightarrow> Some dl
      | Some cur \<Rightarrow> if cur < dl then Some cur else Some dl)"


section \<open>Deadline arithmetic of the simulator\<close>

text \<open>\<^verbatim>\<open>getDeadline\<close>; \<open>now\<close> is the reading of \<^verbatim>\<open>time.Now()\<close> on its third line.\<close>

definition getDeadline :: "context \<Rightarrow> Time \<Rightarrow> int" where
  "getDeadline ctx now =
     (let deadline = Deadline ctx;
          unixTime = UnixNano deadline;
          diffTime = wrap64 (unixTime - UnixNano now)
      in tdiv diffTime 1000000)"

text \<open>
  \<^verbatim>\<open>getNewContext\<close>. \<open>newTimeout\<close> is the value of the local variable of that name when
  \<^verbatim>\<open>context.WithTimeout\<close> is called; \<open>now1\<close> is the clock reading of the call of
  \<^verbatim>\<open>getDeadline\<close>, \<open>now2\<close> the one inside \<^verbatim>\<open>context.WithTimeout\<close>.
\<close>

definition newTimeout :: "int \<Rightarrow> float64 \<Rightarrow> bool \<Rightarrow> float64" where
  "newTimeout timeout percentage isPriority =
     (let timeoutThreshold = 30;
          nt = f64_mul (f64_of_int timeout) percentage
      in if nt < f64_of_int timeoutThreshold \<and> isPriority = True
         then f64_of_int timeout else nt)"

definition getNewContext :: "context \<Rightarrow> float64 \<Rightarrow> bool \<Rightarrow> Time \<Rightarrow> Time \<Rightarrow> context" where
  "getNewContext ctx percentage isPriority now1 now2 =
     (let timeout = getDeadline ctx now1
      in context_WithTimeout ctx
           (wrap64 (int64_of_f64 (newTimeout timeout percentage isPriority) * Millisecond))
           now2)"


section \<open>Steps\<close>

text \<open>
  The struct \<^verbatim>\<open>Function\<close> and the two step types that embed it. The builders return
  pointers and \<^verbatim>\<open>Run\<close> writes through its pointer receiver, so the step objects live in
  a store: a \<^verbatim>\<open>Proccess\<close> interface value is the address of its object. The nil
  interface value is not a value of the model.
\<close>

record Function =
  name :: string
  isExecuted :: bool

record FunctionWithTimeout = Function +
  timeout :: int

record FunctionWithDynamiContext = Function +
  weight :: float64
  isPriority :: bool

datatype object =
    TimeoutObj FunctionWithTimeout
  | DynamicObj FunctionWithDynamiContext

type_synonym Proccess = nat

text \<open>
  What is written to the \<^verbatim>\<open>tabwriter\<close>, one value per call of \<^verbatim>\<open>Fprint\<close> or
  \<^verbatim>\<open>Fprintf\<close>: the line of equals signs, the \<^verbatim>\<open>SIMULATOR:\<close> line, the column header,
  a row of \<^verbatim>\<open>rowFormat\<close>, the time-out message, one unexecuted step, the done message.
  The layout of the columns is left out.
\<close>

datatype line =
    Rule
  | Title string
  | Header
  | Row string int int
  | TimeoutReached
  | Unexecuted string
  | Done int

text \<open>
  The state of the process: the clock that \<^verbatim>\<open>time.Now()\<close> reads, the store of step
  objects with its next free address, and the content of the \<^verbatim>\<open>tabwriter\<close> \<^verbatim>\<open>w\<close>.
  The clock is ideal: it advances in \<^verbatim>\<open>time.Sleep\<close> only, by the duration asked for
  (a duration that is not positive returns at once).
\<close>

record world =
  clock :: Time
  heap :: "Proccess \<Rightarrow> object"
  free :: Proccess
  tw :: "line list"

definition Sleep :: "Duration \<Rightarrow> world \<Rightarrow> world" where
  "Sleep d s = (if d \<le> 0 then s else s\<lparr>clock := clock s + d\<rparr>)"

definition Fprint :: "line \<Rightarrow> world \<Rightarrow> world" where
  "Fprint l s = s\<lparr>tw := tw s @ [l]\<rparr>"

definition alloc :: "object \<Rightarrow> world \<Rightarrow> Proccess \<times> world" where
  "alloc obj s = (free s, s\<lparr>heap := (heap s)(free s := obj), free := Suc (free s)\<rparr>)"

definition NewFunction :: "string \<Rightarrow> Function" where
  "NewFunction n = \<lparr>name = n, isExecuted = False\<rparr>"

text \<open>\<^verbatim>\<open>WithTimeout\<close> and \<^verbatim>\<open>WithDynamicContext\<close> of \<^verbatim>\<open>Function\<close>: the receiver is a copy.\<close>

definition Function_WithTimeout :: "Function \<Rightarrow> int \<Rightarrow> world \<Rightarrow> Proccess \<times> world" where
  "Function_WithTimeout f t s =
     alloc (TimeoutObj \<lparr>name = name f, isExecuted = isExecuted f, timeout = t\<rparr>) s"

definition Function_WithDynamicContext ::
    "Function \<Rightarrow> float64 \<Rightarrow> bool \<Rightarrow> world \<Rightarrow> Proccess \<times> world" where
  "Function_WithDynamicContext f wt pr s =
     alloc (DynamicObj \<lparr>name = name f, isExecuted = isExecuted f, weight = wt, isPriority = pr\<rparr>) s"

text \<open>The methods \<^verbatim>\<open>Run\<close> of the two step types, on the object behind the receiver.\<close>

definition FunctionWithTimeout_Run ::
    "FunctionWithTimeout \<Rightarrow> context \<Rightarrow> world \<Rightarrow> FunctionWithTimeout \<times> world" where
  "FunctionWithTimeout_Run f ctx s =
     (let s1 = Sleep (wrap64 (timeout f * Millisecond)) s;
          f1 = f\<lparr>isExecuted := True\<rparr>;
          s2 = Fprint (Row (name f1) (timeout f1) (getDeadline ctx (clock s1))) s1
      in (f1, s2))"

definition FunctionWithDynamiContext_Run ::
    "FunctionWithDynamiContext \<Rightarrow> context \<Rightarrow> world \<Rightarrow> FunctionWithDynamiContext \<times> world" where
  "FunctionWithDynamiContext_Run f ctx s =
     (let dynamicContext = getNewContext ctx (weight f) (isPriority f) (clock s) (clock s);
          t = getDeadline dynamicContext (clock s);
          s1 = Sleep (wrap64 (t * Millisecond)) s;
          f1 = f\<lparr>isExecuted := True\<rparr>;
          s2 = Fprint (Row (name f1) t (getDeadline ctx (clock s1))) s1
      in (f1, s2))"

text \<open>The interface \<^verbatim>\<open>Proccess\<close>: a call dispatches on the object at the address.\<close>

definition Proccess_Run :: "Proccess \<Rightarrow> context \<Rightarrow> world \<Rightarrow> world" where
  "Proccess_Run p ctx s =
     (case heap s p of
        TimeoutObj f \<Rightarrow>
          (case FunctionWithTimeout_Run f ctx s of
             (f1, s1) \<Rightarrow> s1\<lparr>heap := (heap s1)(p := TimeoutObj f1)\<rparr>)
      | DynamicObj f \<Rightarrow>
          (case FunctionWithDynamiContext_Run f ctx s of
             (f1, s1) \<Rightarrow> s1\<lparr>heap := (heap s1)(p := DynamicObj f1)\<rparr>))"

definition Proccess_IsExecuted :: "Proccess \<Rightarrow> world \<Rightarrow> bool" where
  "Proccess_IsExecuted p s =
     (case heap s p of TimeoutObj f \<Rightarrow> isExecuted f | DynamicObj f \<Rightarrow> isExecuted f)"

definition Proccess_String :: "Proccess \<Rightarrow> world \<Rightarrow> string" where
  "Proccess_String p s =
     (case heap s p of TimeoutObj f \<Rightarrow> name f | DynamicObj f \<Rightarrow> name f)"


section \<open>The simulator\<close>

record Simulator =
  name_sim :: string
  timeout_sim :: int
  process :: "Proccess list"

definition NewSimulator :: "string \<Rightarrow> int \<Rightarrow> Simulator" where
  "NewSimulator n t = \<lparr>name_sim = n, timeout_sim = t, process = []\<rparr>"

definition RegisterFunctions :: "Simulator \<Rightarrow> Proccess list \<Rightarrow> Simulator" where
  "RegisterFunctions sim ps = sim\<lparr>process := ps\<rparr>"

text \<open>The loop of the goroutine of \<^verbatim>\<open>Run\<close>, when nothing stops it.\<close>

fun worker :: "context \<Rightarrow> Proccess list \<Rightarrow> world \<Rightarrow> world" where
  "worker ctx [] s = s"
| "worker ctx (p # ps) s = worker ctx ps (Proccess_Run p ctx s)"

text \<open>
  The goroutine against the \<^verbatim>\<open>select\<close> of \<^verbatim>\<open>Run\<close>, up to the moment the \<^verbatim>\<open>select\<close>
  takes a case. \<open>expiry\<close> is the instant from which \<^verbatim>\<open>ctx.Done()\<close> is ready. A step
  changes nothing before its sleep has ended, so a step that would end after \<open>expiry\<close>
  has changed nothing when the \<^verbatim>\<open>select\<close> takes \<^verbatim>\<open>ctx.Done()\<close>; a step that ends before
  \<open>expiry\<close> is complete by then. What happens at the very instant \<open>expiry\<close> is up to the
  scheduler: \<open>k\<close> is the number of things the goroutine still gets done at that instant
  (steps it completes, then the send on \<^verbatim>\<open>done\<close>) before the \<^verbatim>\<open>select\<close> looks.
  The result is the state at that moment, with the value received from \<^verbatim>\<open>done\<close> if
  that case is taken and \<open>None\<close> if \<^verbatim>\<open>ctx.Done()\<close> is.
\<close>

fun race :: "context \<Rightarrow> Time \<Rightarrow> nat \<Rightarrow> Proccess list \<Rightarrow> world \<Rightarrow> world \<times> int option" where
  "race ctx expiry k [] s =
     (if clock s < expiry \<or> (clock s = expiry \<and> 0 < k)
      then (s, Some (getDeadline ctx (clock s)))
      else (s\<lparr>clock := expiry\<rparr>, None))"
| "race ctx expiry k (p # ps) s =
     (let s1 = Proccess_Run p ctx s in
      if clock s1 < expiry then race ctx expiry k ps s1
      else if clock s1 = expiry \<and> 0 < k then race ctx expiry (k - 1) ps s1
      else (s\<lparr>clock := expiry\<rparr>, None))"

text \<open>The loop of the case \<^verbatim>\<open>ctx.Done()\<close>.\<close>

fun report_unexecuted :: "Proccess list \<Rightarrow> world \<Rightarrow> world" where
  "report_unexecuted [] s = s"
| "report_unexecuted (p # ps) s =
     report_unexecuted ps
       (if \<not> Proccess_IsExecuted p s then Fprint (Unexecuted (Proccess_String p s)) s else s)"

text \<open>
  \<^verbatim>\<open>Run\<close> of \<^verbatim>\<open>Simulator\<close>. The \<^verbatim>\<open>tabwriter\<close> is new in every call; what it holds at the
  end is what \<^verbatim>\<open>Flush\<close> prints. The goroutine is not followed past the return of \<^verbatim>\<open>Run\<close>.
\<close>

definition Simulator_Run :: "Simulator \<Rightarrow> nat \<Rightarrow> world \<Rightarrow> world" where
  "Simulator_Run sim k s =
     (let s1 = s\<lparr>tw := []\<rparr>;
          s2 = Fprint Rule s1;
          s3 = Fprint (Title (name_sim sim)) s2;
          s4 = Fprint Header s3;
          s5 = Fprint (Row ''Init'' (timeout_sim sim) (timeout_sim sim)) s4;
          ctx = context_WithTimeout Background (wrap64 (timeout_sim sim * Millisecond)) (clock s5);
          expiry = max (Deadline ctx) (clock s5)
      in case race ctx expiry k (process sim) s5 of
           (s6, None) \<Rightarrow>
             Fprint Rule (report_unexecuted (process sim) (Fprint TimeoutReached s6))
         | (s6, Some timeLeft) \<Rightarrow>
             Fprint Rule (Fprint (Done timeLeft) s6))"

section \<open>Reading a report\<close>

text \<open>
  The kinds of lines of a report: the two lines that state the outcome of a run, the lines
  that name an unexecuted step, and the rows, with the name in their first column.
\<close>

fun is_outcome :: "line \<Rightarrow> bool" where
  "is_outcome TimeoutReached = True"
| "is_outcome (Done t) = True"
| "is_outcome l = False"

fun is_unexecuted :: "line \<Rightarrow> bool" where
  "is_unexecuted (Unexecuted n) = True"
| "is_unexecuted l = False"

fun is_row :: "line \<Rightarrow> bool" where
  "is_row (Row n a b) = True"
| "is_row l = False"

fun row_name :: "line \<Rightarrow> string" where
  "row_name (Row n a b) = n"
| "row_name l = []"

text \<open>
  Names for the parts of \<^verbatim>\<open>Run\<close> of \<^verbatim>\<open>Simulator\<close>: the four lines written before the
  goroutine starts, the context made by \<^verbatim>\<open>context.WithTimeout\<close>, the instant from which
  its \<^verbatim>\<open>Done\<close> channel is ready (at once when the timeout is not positive), and the
  state in which the goroutine starts.
\<close>

definition header :: "Simulator \<Rightarrow> line list" where
  "header sim = [Rule, Title (name_sim sim), Header, Row ''Init'' (timeout_sim sim) (timeout_sim sim)]"

definition root_context :: "Simulator \<Rightarrow> world \<Rightarrow> context" where
  "root_context sim s =
     context_WithTimeout Background (wrap64 (timeout_sim sim * Millisecond)) (clock s)"

definition expiry :: "Simulator \<Rightarrow> world \<Rightarrow> Time" where
  "expiry sim s = max (Deadline (root_context sim s)) (clock s)"

definition started :: "Simulator \<Rightarrow> world \<Rightarrow> world" where
  "started sim s = s\<lparr>tw := header sim\<rparr>"


section \<open>Example runs\<close>

text \<open>
  A state in which nothing is allocated or written; the three steps and the simulator of
  the README; a run whose first step outlasts the root timeout; the state after the README
  run in which one more step has been built, a state with the same clock that holds this
  step only, and a simulator that is given a step of the README run again.
\<close>

definition start :: world where
  "start = \<lparr>clock = 1700000000000000000,
     heap = (\<lambda>_. TimeoutObj \<lparr>name = [], isExecuted = False, timeout = 0\<rparr>),
     free = 0, tw = []\<rparr>"

definition readme_world :: world where
  "readme_world =
     (case Function_WithTimeout (NewFunction ''Input validation'') 20 start of (p1, s1) \<Rightarrow>
      case Function_WithDynamicContext (NewFunction ''Save to DB'') (1 / 2) True s1 of (p2, s2) \<Rightarrow>
      case Function_WithDynamicContext (NewFunction ''Send email'') (1 / 2) True s2 of (p3, s3) \<Rightarrow>
      s3)"

definition readme_sim :: Simulator where
  "readme_sim = RegisterFunctions (NewSimulator ''Subscribe'' 600) [0, 1, 2]"



definition rerun_world :: world where
  "rerun_world =
     snd (Function_WithTimeout (NewFunction ''Retry'') 10 (Simulator_Run readme_sim 0 readme_world))"

definition blank_world :: world where
  "blank_world = \<lparr>clock = clock rerun_world, heap = (\<lambda>_. heap rerun_world 3), free = 4, tw = []\<rparr>"

definition again_sim :: Simulator where
  "again_sim = RegisterFunctions (NewSimulator ''Again'' 1) [1, 3]"

text \<open>A run whose only step ends at the very instant at which the root context expires.\<close>

definition tie_world :: world where
  "tie_world = snd (Function_WithTimeout (NewFunction ''Exact'') 50 start)"

definition tie_sim :: Simulator where
  "tie_sim = RegisterFunctions (NewSimulator ''Tie'' 50) [0]"


section \<open>Properties of the arithmetic\<close>

lemma round_half_even_of_int: "round_half_even (of_int k) = k"
  by (simp add: round_half_even_def)



lemma ilog2_lower:
  assumes "0 < x" shows "2 powi (ilog2 x) \<le> x"
proof -
  obtain a b where ab: "quotient_of x = (a, b)" by (cases "quotient_of x")
  have b: "0 < b" using ab by (rule quotient_of_denom_pos)
  have x: "x = of_int a / of_int b" using ab by (simp add: quotient_of_div)
  have a: "0 < a" using assms b x by (simp add: zero_less_divide_iff)
  have la: "(2::int) ^ nat (bitlen a - 1) \<le> a" using bitlen_bounds [OF a] by simp
  have lb: "b < 2 ^ nat (bitlen b)" using bitlen_bounds [OF b] by simp
  have ba: "0 < bitlen a" using a bitlen_eq_zero_iff [of a] bitlen_nonneg [of a] by linarith
  have bb: "0 \<le> bitlen b" by (rule bitlen_nonneg)
  have "(2::rat) powi (bitlen a - bitlen b - 1) = 2 powi (bitlen a - 1) / 2 powi (bitlen b)"
    by (simp add: power_int_diff)
  also have "\<dots> = of_int (2 ^ nat (bitlen a - 1)) / of_int (2 ^ nat (bitlen b))"
    using ba bb by (simp add: power_int_def)
  also have "\<dots> \<le> of_int a / of_int b"
    using la lb a b by (intro frac_le) (simp_all add: less_imp_le)
  finally have low: "(2::rat) powi (bitlen a - bitlen b - 1) \<le> x" using x by simp
  show ?thesis using low assms ab
    by (simp add: ilog2_def Let_def abs_of_pos)
qed

lemma ilog2_upper_bound:
  assumes "0 < x" "x < 2 powi n" shows "ilog2 x < n"
proof -
  have "(2::rat) powi (ilog2 x) < 2 powi n" using ilog2_lower [OF assms(1)] assms(2) by simp
  then show ?thesis using power_int_increasing [of n "ilog2 x" "2::rat"] by (cases "n \<le> ilog2 x") auto
qed



lemma f64_round_of_int:
  assumes "\<bar>n\<bar> < 2 ^ 53"
  shows "f64_round (of_int n) = of_int n"
proof (cases "n = 0")
  case True
  then show ?thesis by (simp add: f64_round_def)
next
  case False
  define x :: rat where "x = of_int n"
  define e where "e = max (ilog2 x) (- 1022)"
  define q :: rat where "q = 2 powi (e - 52)"
  have q: "0 < q" by (simp add: q_def)
  have ax: "0 < \<bar>x\<bar>" using False by (simp add: x_def)
  have il: "ilog2 x = ilog2 \<bar>x\<bar>" by (simp add: ilog2_def)
  have "(of_int \<bar>n\<bar> :: rat) < of_int (2 ^ 53)" using assms by (simp only: of_int_less_iff)
  then have "\<bar>x\<bar> < 2 powi 53" by (simp add: x_def)
  then have "ilog2 x < 53" unfolding il by (rule ilog2_upper_bound [OF ax])
  then have e: "e \<le> 52" by (simp add: e_def)
  have "x / q = of_int n * 2 powi (52 - e)"
    by (simp add: q_def x_def power_int_diff)
  also have "\<dots> = of_int (n * 2 ^ nat (52 - e))" using e by (simp add: power_int_def)
  finally have nq: "x / q = of_int (n * 2 ^ nat (52 - e))" .
  have "of_int (round_half_even (x / q)) * q = x / q * q"
    unfolding nq round_half_even_of_int ..
  also have "\<dots> = x" using q by simp
  finally show ?thesis using False by (simp add: f64_round_def Let_def e_def q_def x_def)
qed

lemma wrap64_range: "- (2 ^ 63) \<le> wrap64 n \<and> wrap64 n < 2 ^ 63"
proof -
  have "0 \<le> (n + 2 ^ 63) mod (2 ^ 64 :: int)" by simp
  moreover have "(n + 2 ^ 63) mod (2 ^ 64 :: int) < 2 ^ 64" by simp
  ultimately show ?thesis unfolding wrap64_def by simp
qed

lemma wrap64_id:
  assumes "- (2 ^ 63) \<le> n" "n < 2 ^ 63" shows "wrap64 n = n"
proof -
  have "0 \<le> n + 2 ^ 63" "n + 2 ^ 63 < 2 ^ 64" using assms by simp_all
  then have "(n + 2 ^ 63) mod 2 ^ 64 = n + 2 ^ 63" by (rule mod_pos_pos_trivial)
  then show ?thesis unfolding wrap64_def by simp
qed

lemma tdiv_pos: "0 \<le> a \<Longrightarrow> 0 < b \<Longrightarrow> tdiv a b = a div b"
  unfolding tdiv_def by simp

lemma tdiv_neg: "a < 0 \<Longrightarrow> 0 < b \<Longrightarrow> tdiv a b = - ((- a) div b)"
  unfolding tdiv_def by simp

lemma tdiv_million_range:
  assumes "- (2 ^ 63) \<le> x" "x < 2 ^ 63"
  shows "- 9223372036854 \<le> tdiv x 1000000 \<and> tdiv x 1000000 \<le> 9223372036854"
proof (cases "0 \<le> x")
  case True
  then have "tdiv x 1000000 = x div 1000000" by (simp add: tdiv_pos)
  moreover have "0 \<le> x div 1000000" using True by simp
  moreover have "x div 1000000 \<le> 9223372036854" using assms(2) by simp
  ultimately show ?thesis by simp
next
  case False
  then have "tdiv x 1000000 = - ((- x) div 1000000)" by (simp add: tdiv_neg)
  moreover have "0 \<le> (- x) div 1000000" using False by simp
  moreover have "(- x) div 1000000 \<le> 9223372036854" using assms(1) by simp
  ultimately show ?thesis by simp
qed

lemma getDeadline_range:
  "- 9223372036854 \<le> getDeadline ctx now \<and> getDeadline ctx now \<le> 9223372036854"
  unfolding getDeadline_def Let_def
  using wrap64_range [of "UnixNano (Deadline ctx) - UnixNano now"]
  by (intro tdiv_million_range) simp_all

lemma getDeadline_Millisecond:
  "wrap64 (getDeadline ctx now * Millisecond) = getDeadline ctx now * Millisecond"
  using getDeadline_range [of ctx now] unfolding Millisecond_def
  by (intro wrap64_id) simp_all

lemma f64_of_int_getDeadline:
  "f64_of_int (getDeadline ctx now) = of_int (getDeadline ctx now)"
  unfolding f64_of_int_def using getDeadline_range [of ctx now]
  by (intro f64_round_of_int) (simp add: abs_less_iff)

lemma trunc_of_int: "trunc (of_int n) = n"
  by (simp add: trunc_def)

lemma int64_of_f64_getDeadline:
  "int64_of_f64 (of_int (getDeadline ctx now)) = getDeadline ctx now"
  using getDeadline_range [of ctx now] by (simp add: int64_of_f64_def trunc_of_int)



lemma wrap64_Millisecond:
  assumes "- 9223372036854 \<le> a" "a \<le> 9223372036854"
  shows "wrap64 (a * Millisecond) = a * Millisecond"
  unfolding Millisecond_def using assms by (intro wrap64_id) simp_all



lemma f64_mul_exact:
  assumes "f64_of_int t * w = of_int k" "\<bar>k\<bar> < 2 ^ 53"
  shows "f64_mul (f64_of_int t) w = of_int k"
  unfolding f64_mul_def assms(1) by (rule f64_round_of_int [OF assms(2)])


text \<open>
  The product is the \<^verbatim>\<open>float64\<close> product: it is rounded before the fraction is
  discarded. With the weight \<^verbatim>\<open>1.0 / 3.0\<close> and 3 ms the rounded product is 1, the exact
  one is below 1.
\<close>

lemma f64_mul_third:
  "f64_mul (f64_of_int 3) (f64_round (1 / 3)) = 1 \<and> \<lfloor>3 * f64_round (1 / 3)\<rfloor> = 0"
  by code_simp

section \<open>Properties of the steps\<close>

lemma Sleep_fields [simp]:
  "clock (Sleep d s) = clock s + max 0 d"
  "heap (Sleep d s) = heap s"
  "free (Sleep d s) = free s"
  "tw (Sleep d s) = tw s"
  by (simp_all add: Sleep_def)

lemma Sleep_nonneg: "0 \<le> d \<Longrightarrow> Sleep d s = s\<lparr>clock := clock s + d\<rparr>"
  by (cases "d = 0") (simp_all add: Sleep_def)

lemma Sleep_nonpos: "d \<le> 0 \<Longrightarrow> Sleep d s = s"
  by (simp add: Sleep_def)

lemma Fprint_fields [simp]:
  "clock (Fprint l s) = clock s"
  "heap (Fprint l s) = heap s"
  "free (Fprint l s) = free s"
  "tw (Fprint l s) = tw s @ [l]"
  by (simp_all add: Fprint_def)

lemma Proccess_IsExecuted_Fprint [simp]:
  "Proccess_IsExecuted p (Fprint l s) = Proccess_IsExecuted p s"
  "Proccess_String p (Fprint l s) = Proccess_String p s"
  by (simp_all add: Proccess_IsExecuted_def Proccess_String_def)

lemma Proccess_Run_Timeout:
  assumes "heap s p = TimeoutObj f"
  shows "Proccess_Run p ctx s =
    s\<lparr>clock := clock s + max 0 (wrap64 (timeout f * Millisecond)),
      heap := (heap s)(p := TimeoutObj (f\<lparr>isExecuted := True\<rparr>)),
      tw := tw s @ [Row (name f) (timeout f)
              (getDeadline ctx (clock s + max 0 (wrap64 (timeout f * Millisecond))))]\<rparr>"
  using assms
  by (simp add: Proccess_Run_def FunctionWithTimeout_Run_def Let_def Sleep_def Fprint_def)

lemma Proccess_Run_Dynamic:
  assumes "heap s p = DynamicObj f"
  shows "Proccess_Run p ctx s =
    (let t = getDeadline (getNewContext ctx (weight f) (isPriority f) (clock s) (clock s)) (clock s)
     in s\<lparr>clock := clock s + max 0 (wrap64 (t * Millisecond)),
          heap := (heap s)(p := DynamicObj (f\<lparr>isExecuted := True\<rparr>)),
          tw := tw s @ [Row (name f) t (getDeadline ctx (clock s + max 0 (wrap64 (t * Millisecond))))]\<rparr>)"
  using assms
  by (simp add: Proccess_Run_def FunctionWithDynamiContext_Run_def Let_def Sleep_def Fprint_def)

lemma Proccess_Run_clock_mono: "clock s \<le> clock (Proccess_Run p ctx s)"
  by (cases "heap s p") (simp_all add: Proccess_Run_Timeout Proccess_Run_Dynamic Let_def)

lemma Proccess_Run_free [simp]: "free (Proccess_Run p ctx s) = free s"
  by (cases "heap s p") (simp_all add: Proccess_Run_Timeout Proccess_Run_Dynamic Let_def)

lemma Proccess_Run_self [simp]: "Proccess_IsExecuted p (Proccess_Run p ctx s)"
  by (cases "heap s p")
    (simp_all add: Proccess_Run_Timeout Proccess_Run_Dynamic Let_def Proccess_IsExecuted_def)

lemma Proccess_Run_other: "q \<noteq> p \<Longrightarrow> heap (Proccess_Run p ctx s) q = heap s q"
  by (cases "heap s p") (simp_all add: Proccess_Run_Timeout Proccess_Run_Dynamic Let_def)

lemma Proccess_Run_keeps:
  "Proccess_IsExecuted q s \<Longrightarrow> Proccess_IsExecuted q (Proccess_Run p ctx s)"
proof (cases "q = p")
  case True
  then show ?thesis by simp
next
  case False
  assume "Proccess_IsExecuted q s"
  with False show ?thesis by (simp add: Proccess_Run_other Proccess_IsExecuted_def)
qed

lemma Proccess_Run_String [simp]:
  "Proccess_String q (Proccess_Run p ctx s) = Proccess_String q s"
  by (cases "heap s p"; cases "q = p")
    (simp_all add: Proccess_Run_Timeout Proccess_Run_Dynamic Let_def Proccess_String_def)

lemma Proccess_Run_IsExecuted:
  "Proccess_IsExecuted q (Proccess_Run p ctx s) = (q = p \<or> Proccess_IsExecuted q s)"
proof (cases "q = p")
  case True
  then show ?thesis by simp
next
  case False
  then show ?thesis by (simp add: Proccess_Run_other Proccess_IsExecuted_def)
qed

lemma Proccess_Run_tw:
  "\<exists>a b. tw (Proccess_Run p ctx s) = tw s @ [Row (Proccess_String p s) a b]"
  by (cases "heap s p")
    (simp_all add: Proccess_Run_Timeout Proccess_Run_Dynamic Let_def Proccess_String_def)

lemma alloc_keeps:
  "q < free s \<Longrightarrow> heap (snd (alloc obj s)) q = heap s q"
  by (simp add: alloc_def)

text \<open>A fixed timeout below 0 is not slept: the clock stays, the row shows the timeout.\<close>

lemma fixed_step_negative:
  assumes "heap s p = TimeoutObj f" and "timeout f < 0" and "- 9223372036854 \<le> timeout f"
  shows "Proccess_Run p ctx s =
      s\<lparr>heap := (heap s)(p := TimeoutObj (f\<lparr>isExecuted := True\<rparr>)),
        tw := tw s @ [Row (name f) (timeout f) (getDeadline ctx (clock s))]\<rparr>"
proof -
  have "wrap64 (timeout f * Millisecond) = timeout f * Millisecond"
    using assms(2,3) by (intro wrap64_Millisecond) simp_all
  then have "max 0 (wrap64 (timeout f * Millisecond)) = 0"
    using assms(2) by (simp add: Millisecond_def)
  then show ?thesis using Proccess_Run_Timeout [OF assms(1), of ctx] by simp
qed


section \<open>Properties of the goroutine and of the select\<close>

lemma worker_clock_mono: "clock s \<le> clock (worker ctx ps s)"
proof (induction ps arbitrary: s)
  case Nil
  show ?case by simp
next
  case (Cons p ps)
  have "clock s \<le> clock (Proccess_Run p ctx s)" by (rule Proccess_Run_clock_mono)
  also have "\<dots> \<le> clock (worker ctx ps (Proccess_Run p ctx s))" by (rule Cons.IH)
  finally show ?case by simp
qed

lemma worker_append: "worker ctx (xs @ ys) s = worker ctx ys (worker ctx xs s)"
  by (induction xs arbitrary: s) simp_all

lemma worker_free [simp]: "free (worker ctx ps s) = free s"
  by (induction ps arbitrary: s) simp_all

lemma worker_String [simp]: "Proccess_String q (worker ctx ps s) = Proccess_String q s"
  by (induction ps arbitrary: s) simp_all

lemma worker_IsExecuted:
  "Proccess_IsExecuted q (worker ctx ps s) = (q \<in> set ps \<or> Proccess_IsExecuted q s)"
  by (induction ps arbitrary: s) (auto simp: Proccess_Run_IsExecuted)

lemma worker_other: "q \<notin> set ps \<Longrightarrow> heap (worker ctx ps s) q = heap s q"
  by (induction ps arbitrary: s) (simp_all add: Proccess_Run_other)

lemma worker_tw:
  "\<exists>rs. tw (worker ctx ps s) = tw s @ rs \<and> list_all is_row rs \<and>
        map row_name rs = map (\<lambda>p. Proccess_String p s) ps"
proof (induction ps arbitrary: s)
  case Nil
  show ?case by simp
next
  case (Cons p ps)
  obtain a b where r: "tw (Proccess_Run p ctx s) = tw s @ [Row (Proccess_String p s) a b]"
    using Proccess_Run_tw by blast
  obtain rs where rs: "tw (worker ctx ps (Proccess_Run p ctx s)) = tw (Proccess_Run p ctx s) @ rs"
      "list_all is_row rs" "map row_name rs = map (\<lambda>q. Proccess_String q (Proccess_Run p ctx s)) ps"
    using Cons.IH by blast
  have "tw (worker ctx (p # ps) s) = tw s @ (Row (Proccess_String p s) a b # rs)"
    using r rs(1) by simp
  moreover have "list_all is_row (Row (Proccess_String p s) a b # rs)" using rs(2) by simp
  moreover have "map row_name (Row (Proccess_String p s) a b # rs)
      = map (\<lambda>q. Proccess_String q s) (p # ps)" using rs(3) by simp
  ultimately show ?case by blast
qed

lemma race_Some:
  "race ctx E k ps s = (s', Some t) \<Longrightarrow>
     s' = worker ctx ps s \<and> t = getDeadline ctx (clock s') \<and> clock s' \<le> E"
proof (induction ps arbitrary: s k)
  case Nil
  then show ?case by (auto split: if_splits)
next
  case (Cons p ps)
  then show ?case by (auto simp: Let_def split: if_splits)
qed

lemma race_None:
  "race ctx E k ps s = (s', None) \<Longrightarrow>
     \<exists>n\<le>length ps. s' = (worker ctx (take n ps) s)\<lparr>clock := E\<rparr> \<and>
        (n < length ps \<longrightarrow> E \<le> clock (Proccess_Run (ps ! n) ctx (worker ctx (take n ps) s))) \<and>
        (n = length ps \<longrightarrow> E \<le> clock (worker ctx ps s))"
proof (induction ps arbitrary: s k)
  case Nil
  then show ?case by (auto split: if_splits)
next
  case (Cons p ps)
  let ?s1 = "Proccess_Run p ctx s"
  show ?case
  proof (cases "clock ?s1 < E \<or> (clock ?s1 = E \<and> 0 < k)")
    case True
    then obtain k' where "race ctx E k' ps ?s1 = (s', None)"
      using Cons.prems by (auto simp: Let_def split: if_splits)
    from Cons.IH [OF this] obtain n where n: "n \<le> length ps"
       "s' = (worker ctx (take n ps) ?s1)\<lparr>clock := E\<rparr>"
       "n < length ps \<longrightarrow> E \<le> clock (Proccess_Run (ps ! n) ctx (worker ctx (take n ps) ?s1))"
       "n = length ps \<longrightarrow> E \<le> clock (worker ctx ps ?s1)"
      by blast
    show ?thesis
      by (rule exI [of _ "Suc n"]) (use n in simp)
  next
    case False
    then have "s' = s\<lparr>clock := E\<rparr>" "E \<le> clock ?s1"
      using Cons.prems by (auto simp: Let_def split: if_splits)
    then show ?thesis by (intro exI [of _ 0]) simp
  qed
qed

lemma race_before:
  "clock (worker ctx ps s) < E \<Longrightarrow>
     race ctx E k ps s = (worker ctx ps s, Some (getDeadline ctx (clock (worker ctx ps s))))"
proof (induction ps arbitrary: s)
  case Nil
  then show ?case by simp
next
  case (Cons p ps)
  have "clock (Proccess_Run p ctx s) \<le> clock (worker ctx ps (Proccess_Run p ctx s))"
    by (rule worker_clock_mono)
  then have "clock (Proccess_Run p ctx s) < E" using Cons.prems by simp
  then show ?case using Cons by (simp add: Let_def)
qed

lemma race_after:
  "E < clock (worker ctx ps s) \<Longrightarrow> snd (race ctx E k ps s) = None"
proof (induction ps arbitrary: s k)
  case Nil
  then show ?case by simp
next
  case (Cons p ps)
  then show ?case by (simp add: Let_def)
qed

lemma report_unexecuted_fields [simp]:
  "clock (report_unexecuted ps s) = clock s"
  "heap (report_unexecuted ps s) = heap s"
  "free (report_unexecuted ps s) = free s"
  by (induction ps arbitrary: s) simp_all

lemma report_unexecuted_tw:
  "tw (report_unexecuted ps s) =
     tw s @ map (\<lambda>p. Unexecuted (Proccess_String p s)) (filter (\<lambda>p. \<not> Proccess_IsExecuted p s) ps)"
  by (induction ps arbitrary: s) simp_all


section \<open>The shape of a report\<close>

lemma Simulator_Run_eq:
  "Simulator_Run sim k s =
     (case race (root_context sim s) (expiry sim s) k (process sim) (started sim s) of
        (s6, None) \<Rightarrow> Fprint Rule (report_unexecuted (process sim) (Fprint TimeoutReached s6))
      | (s6, Some timeLeft) \<Rightarrow> Fprint Rule (Fprint (Done timeLeft) s6))"
  by (simp add: Simulator_Run_def Let_def root_context_def expiry_def started_def header_def
      Fprint_def)




lemma header_filters [simp]:
  "filter is_outcome (header sim) = []"
  "filter is_unexecuted (header sim) = []"
  "TimeoutReached \<notin> set (header sim)"
  by (simp_all add: header_def)

lemma filter_unexecuted_map [simp]:
  "filter is_unexecuted (map (\<lambda>p. Unexecuted (f p)) ps) = map (\<lambda>p. Unexecuted (f p)) ps"
  "filter is_outcome (map (\<lambda>p. Unexecuted (f p)) ps) = []"
  by (induction ps) simp_all

lemma started_fields [simp]:
  "clock (started sim s) = clock s"
  "heap (started sim s) = heap s"
  "free (started sim s) = free s"
  "tw (started sim s) = header sim"
  "Proccess_String p (started sim s) = Proccess_String p s"
  "Proccess_IsExecuted p (started sim s) = Proccess_IsExecuted p s"
  by (simp_all add: started_def Proccess_String_def Proccess_IsExecuted_def)

lemma Simulator_Run_completed:
  assumes "race (root_context sim s) (expiry sim s) k (process sim) (started sim s) = (s6, Some t)"
  shows "\<exists>rs. tw (Simulator_Run sim k s) = header sim @ rs @ [Done t, Rule] \<and>
     list_all is_row rs \<and> map row_name rs = map (\<lambda>p. Proccess_String p s) (process sim) \<and>
     t = getDeadline (root_context sim s)
           (clock (worker (root_context sim s) (process sim) (started sim s))) \<and>
     clock (worker (root_context sim s) (process sim) (started sim s)) \<le> expiry sim s \<and>
     heap (Simulator_Run sim k s) = heap (worker (root_context sim s) (process sim) (started sim s)) \<and>
     clock (Simulator_Run sim k s) = clock (worker (root_context sim s) (process sim) (started sim s))"
proof -
  let ?W = "worker (root_context sim s) (process sim) (started sim s)"
  from race_Some [OF assms] have s6: "s6 = ?W" "t = getDeadline (root_context sim s) (clock ?W)"
    "clock ?W \<le> expiry sim s" by auto
  obtain rs where rs: "tw ?W = tw (started sim s) @ rs" "list_all is_row rs"
     "map row_name rs = map (\<lambda>p. Proccess_String p (started sim s)) (process sim)"
    using worker_tw by blast
  have "tw (Simulator_Run sim k s) = header sim @ rs @ [Done t, Rule]"
    using assms rs(1) s6(1) by (simp add: Simulator_Run_eq)
  moreover have "heap (Simulator_Run sim k s) = heap ?W" "clock (Simulator_Run sim k s) = clock ?W"
    using assms s6(1) by (simp_all add: Simulator_Run_eq)
  ultimately show ?thesis using rs(2,3) s6(2,3) by auto
qed

lemma Simulator_Run_expired:
  assumes "race (root_context sim s) (expiry sim s) k (process sim) (started sim s) = (s6, None)"
  shows "\<exists>n rs. n \<le> length (process sim) \<and>
     tw (Simulator_Run sim k s) = header sim @ rs @ TimeoutReached #
        map (\<lambda>p. Unexecuted (Proccess_String p s))
          (filter (\<lambda>p. \<not> Proccess_IsExecuted p (Simulator_Run sim k s)) (process sim)) @ [Rule] \<and>
     list_all is_row rs \<and>
     map row_name rs = map (\<lambda>p. Proccess_String p s) (take n (process sim)) \<and>
     heap (Simulator_Run sim k s) =
       heap (worker (root_context sim s) (take n (process sim)) (started sim s)) \<and>
     clock (Simulator_Run sim k s) = expiry sim s \<and>
     expiry sim s \<le> clock (worker (root_context sim s) (process sim) (started sim s))"
proof -
  let ?ctx = "root_context sim s" and ?ps = "process sim" and ?s0 = "started sim s"
  from race_None [OF assms] obtain n where n: "n \<le> length ?ps"
     "s6 = (worker ?ctx (take n ?ps) ?s0)\<lparr>clock := expiry sim s\<rparr>"
     "n < length ?ps \<longrightarrow>
        expiry sim s \<le> clock (Proccess_Run (?ps ! n) ?ctx (worker ?ctx (take n ?ps) ?s0))"
     "n = length ?ps \<longrightarrow> expiry sim s \<le> clock (worker ?ctx ?ps ?s0)"
    by blast
  let ?W = "worker ?ctx (take n ?ps) ?s0"
  obtain rs where rs: "tw ?W = tw ?s0 @ rs" "list_all is_row rs"
     "map row_name rs = map (\<lambda>p. Proccess_String p ?s0) (take n ?ps)"
    using worker_tw by blast
  have run: "Simulator_Run sim k s =
      Fprint Rule (report_unexecuted ?ps (Fprint TimeoutReached s6))"
    using assms by (simp add: Simulator_Run_eq)
  have hp: "heap (Simulator_Run sim k s) = heap ?W" by (simp add: run n(2))
  have ie: "Proccess_IsExecuted p s6 = Proccess_IsExecuted p (Simulator_Run sim k s)" for p
    by (simp add: Proccess_IsExecuted_def hp n(2))
  have st: "Proccess_String p s6 = Proccess_String p s" for p
  proof -
    have "Proccess_String p s6 = Proccess_String p ?W"
      by (simp add: Proccess_String_def n(2))
    then show ?thesis by simp
  qed
  have tws6: "tw s6 = header sim @ rs" by (simp add: n(2) rs(1))
  have "tw (Fprint Rule (report_unexecuted ?ps (Fprint TimeoutReached s6))) =
      header sim @ rs @ TimeoutReached #
        map (\<lambda>p. Unexecuted (Proccess_String p s))
          (filter (\<lambda>p. \<not> Proccess_IsExecuted p (Simulator_Run sim k s)) ?ps) @ [Rule]"
    by (simp add: report_unexecuted_tw ie st tws6)
  then have t: "tw (Simulator_Run sim k s) = header sim @ rs @ TimeoutReached #
        map (\<lambda>p. Unexecuted (Proccess_String p s))
          (filter (\<lambda>p. \<not> Proccess_IsExecuted p (Simulator_Run sim k s)) ?ps) @ [Rule]"
    by (simp only: run)
  have late: "expiry sim s \<le> clock (worker ?ctx ?ps ?s0)"
  proof (cases "n < length ?ps")
    case True
    have "worker ?ctx ?ps ?s0 = worker ?ctx (drop n ?ps) ?W"
      using worker_append [of ?ctx "take n ?ps" "drop n ?ps" ?s0] by simp
    also have "drop n ?ps = ?ps ! n # drop (Suc n) ?ps" using True by (simp add: Cons_nth_drop_Suc)
    finally have "worker ?ctx ?ps ?s0 = worker ?ctx (drop (Suc n) ?ps) (Proccess_Run (?ps ! n) ?ctx ?W)"
      by simp
    then have "clock (Proccess_Run (?ps ! n) ?ctx ?W) \<le> clock (worker ?ctx ?ps ?s0)"
      using worker_clock_mono [of "Proccess_Run (?ps ! n) ?ctx ?W" ?ctx "drop (Suc n) ?ps"] by simp
    then show ?thesis using n(3) True by simp
  next
    case False
    then show ?thesis using n(1,4) by simp
  qed
  have ck: "clock (Simulator_Run sim k s) = expiry sim s" by (simp add: run n(2))
  show ?thesis
    by (intro exI [of _ n] exI [of _ rs]) (use n(1) t rs(2,3) hp ck late in simp)
qed

lemma Simulator_Run_heap:
  "\<exists>n\<le>length (process sim). heap (Simulator_Run sim k s) =
      heap (worker (root_context sim s) (take n (process sim)) (started sim s))"
proof -
  let ?R = "race (root_context sim s) (expiry sim s) k (process sim) (started sim s)"
  obtain s6 r where R: "?R = (s6, r)" by (cases ?R)
  show ?thesis
  proof (cases r)
    case None
    with R Simulator_Run_expired [of sim s k s6] show ?thesis by blast
  next
    case (Some t)
    with R Simulator_Run_completed [of sim s k s6 t]
    have "heap (Simulator_Run sim k s) =
      heap (worker (root_context sim s) (take (length (process sim)) (process sim)) (started sim s))"
      by auto
    then show ?thesis by blast
  qed
qed

lemma Simulator_Run_keeps:
  assumes "Proccess_IsExecuted q s" shows "Proccess_IsExecuted q (Simulator_Run sim k s)"
proof -
  obtain n where "heap (Simulator_Run sim k s) =
      heap (worker (root_context sim s) (take n (process sim)) (started sim s))"
    using Simulator_Run_heap by blast
  then have "Proccess_IsExecuted q (Simulator_Run sim k s) =
      Proccess_IsExecuted q (worker (root_context sim s) (take n (process sim)) (started sim s))"
    by (simp add: Proccess_IsExecuted_def)
  then show ?thesis using assms by (simp add: worker_IsExecuted)
qed

lemma Simulator_Run_other:
  assumes "q \<notin> set (process sim)" shows "heap (Simulator_Run sim k s) q = heap s q"
proof -
  obtain n where n: "heap (Simulator_Run sim k s) =
      heap (worker (root_context sim s) (take n (process sim)) (started sim s))"
    using Simulator_Run_heap by blast
  have "q \<notin> set (take n (process sim))" using assms by (auto dest: in_set_takeD)
  then show ?thesis unfolding n by (simp add: worker_other)
qed



text \<open>
  When the goroutine ends at the instant of expiry the scheduler decides: the time-out
  message with the step unexecuted, the time-out message after the row of the step, or
  the done message.
\<close>

lemma tie_either:
  "clock (worker (root_context tie_sim tie_world) (process tie_sim) (started tie_sim tie_world))
     = expiry tie_sim tie_world \<and>
   tw (Simulator_Run tie_sim 0 tie_world) =
     [Rule, Title ''Tie'', Header, Row ''Init'' 50 50, TimeoutReached, Unexecuted ''Exact'', Rule] \<and>
   tw (Simulator_Run tie_sim 1 tie_world) =
     [Rule, Title ''Tie'', Header, Row ''Init'' 50 50, Row ''Exact'' 50 0, TimeoutReached, Rule] \<and>
   tw (Simulator_Run tie_sim 2 tie_world) =
     [Rule, Title ''Tie'', Header, Row ''Init'' 50 50, Row ''Exact'' 50 0, Done 0, Rule]"
  by code_simp


section \<open>States that agree on the registered steps\<close>

lemma Proccess_Run_agree:
  assumes "clock s1 = clock s2" "tw s1 = tw s2" "\<forall>q\<in>A. heap s1 q = heap s2 q" "p \<in> A"
  shows "clock (Proccess_Run p ctx s1) = clock (Proccess_Run p ctx s2) \<and>
         tw (Proccess_Run p ctx s1) = tw (Proccess_Run p ctx s2) \<and>
         (\<forall>q\<in>A. heap (Proccess_Run p ctx s1) q = heap (Proccess_Run p ctx s2) q)"
proof -
  have h: "heap s1 p = heap s2 p" using assms(3,4) by simp
  show ?thesis
  proof (cases "heap s2 p")
    case (TimeoutObj f)
    then show ?thesis using h assms(1,2,3)
      by (simp add: Proccess_Run_Timeout)
  next
    case (DynamicObj f)
    then show ?thesis using h assms(1,2,3)
      by (simp add: Proccess_Run_Dynamic Let_def)
  qed
qed

lemma race_agree:
  assumes "set ps \<subseteq> A"
    and "clock s1 = clock s2" "tw s1 = tw s2" "\<forall>q\<in>A. heap s1 q = heap s2 q"
  shows "snd (race ctx E k ps s1) = snd (race ctx E k ps s2) \<and>
         tw (fst (race ctx E k ps s1)) = tw (fst (race ctx E k ps s2)) \<and>
         (\<forall>q\<in>A. heap (fst (race ctx E k ps s1)) q = heap (fst (race ctx E k ps s2)) q)"
  using assms
proof (induction ps arbitrary: s1 s2 k)
  case Nil
  then show ?case by simp
next
  case (Cons p ps)
  have p: "p \<in> A" and ps: "set ps \<subseteq> A" using Cons.prems(1) by simp_all
  note ag = Proccess_Run_agree [OF Cons.prems(2,3,4) p, of ctx]
  have c: "clock (Proccess_Run p ctx s1) = clock (Proccess_Run p ctx s2)" using ag by simp
  note ih = Cons.IH [OF ps, of "Proccess_Run p ctx s1" "Proccess_Run p ctx s2"]
  show ?case
    using ag ih Cons.prems(2,3,4) by (simp add: Let_def c)
qed

lemma report_unexecuted_agree:
  assumes "set ps \<subseteq> A" "tw s1 = tw s2" "\<forall>q\<in>A. heap s1 q = heap s2 q"
  shows "tw (report_unexecuted ps s1) = tw (report_unexecuted ps s2)"
proof -
  have "Proccess_IsExecuted p s1 = Proccess_IsExecuted p s2
      \<and> Proccess_String p s1 = Proccess_String p s2" if "p \<in> set ps" for p
    using that assms(1,3) by (auto simp: Proccess_IsExecuted_def Proccess_String_def)
  then have "map (\<lambda>p. Unexecuted (Proccess_String p s1)) (filter (\<lambda>p. \<not> Proccess_IsExecuted p s1) ps)
      = map (\<lambda>p. Unexecuted (Proccess_String p s2)) (filter (\<lambda>p. \<not> Proccess_IsExecuted p s2) ps)"
    by (intro map_cong filter_cong) auto
  then show ?thesis by (simp add: report_unexecuted_tw assms(2))
qed

lemma Simulator_Run_agree:
  assumes "clock s1 = clock s2" "\<forall>q\<in>set (process sim). heap s1 q = heap s2 q"
  shows "tw (Simulator_Run sim k s1) = tw (Simulator_Run sim k s2)"
proof -
  let ?ps = "process sim"
  have ctx: "root_context sim s1 = root_context sim s2" "expiry sim s1 = expiry sim s2"
    using assms(1) by (simp_all add: root_context_def expiry_def)
  let ?R1 = "race (root_context sim s2) (expiry sim s2) k ?ps (started sim s1)"
  let ?R2 = "race (root_context sim s2) (expiry sim s2) k ?ps (started sim s2)"
  have ag: "snd ?R1 = snd ?R2" "tw (fst ?R1) = tw (fst ?R2)"
     "\<forall>q\<in>set ?ps. heap (fst ?R1) q = heap (fst ?R2) q"
    using race_agree [of ?ps "set ?ps" "started sim s1" "started sim s2"
        "root_context sim s2" "expiry sim s2" k] assms
    by simp_all
  obtain a1 r1 where R1: "?R1 = (a1, r1)" by (cases ?R1)
  obtain a2 r2 where R2: "?R2 = (a2, r2)" by (cases ?R2)
  have r: "r1 = r2" "tw a1 = tw a2" "\<forall>q\<in>set ?ps. heap a1 q = heap a2 q"
    using ag R1 R2 by simp_all
  show ?thesis
  proof (cases r2)
    case None
    have "tw (report_unexecuted ?ps (Fprint TimeoutReached a1))
        = tw (report_unexecuted ?ps (Fprint TimeoutReached a2))"
      using r(2,3) by (intro report_unexecuted_agree [of _ "set ?ps"]) simp_all
    then show ?thesis using None r(1) R1 R2 by (simp add: Simulator_Run_eq ctx)
  next
    case (Some t)
    then show ?thesis using r(1,2) R1 R2 by (simp add: Simulator_Run_eq ctx)
  qed
qed


section \<open>Budget derivation\<close>

text \<open>
  C1. A priority step (\<open>isPriority = True\<close>) whose weighted share, the product of the
  parent's remaining milliseconds and the weight, is below 30 is given the parent's whole
  remaining time: \<open>newTimeout\<close> is the remaining time itself, neither the share nor 30,
  and the derived context is the one of that duration. The test is on the share: when
  the share is at least 30 the step gets the share, whatever the parent has left.
\<close>

theorem C1_priority_escalation:
  "(let t = getDeadline ctx now1; share = f64_mul (f64_of_int t) w in
     (share < 30 \<longrightarrow>
        newTimeout t w True = of_int t \<and>
        getNewContext ctx w True now1 now2 = context_WithTimeout ctx (t * Millisecond) now2) \<and>
     (30 \<le> share \<longrightarrow>
        newTimeout t w True = share \<and>
        getNewContext ctx w True now1 now2 =
          context_WithTimeout ctx (wrap64 (int64_of_f64 share * Millisecond)) now2))"
proof -
  have thirty: "f64_of_int 30 = 30"
    unfolding f64_of_int_def using f64_round_of_int [of 30] by simp
  show ?thesis
    unfolding Let_def getNewContext_def newTimeout_def thirty
    by (simp add: f64_of_int_getDeadline int64_of_f64_getDeadline getDeadline_Millisecond)
qed

theorem C1_priority_escalation_witness:
  "f64_mul (f64_of_int (getDeadline (Some 1700000000040000000) 1700000000000000000)) (1 / 2) < 30 \<and>
   newTimeout 40 (1 / 2) True = 40 \<and>
   getNewContext (Some 1700000000040000000) (1 / 2) True 1700000000000000000 1700000000000000000
     = Some 1700000000040000000 \<and>
   30 \<le> f64_mul (f64_of_int (getDeadline (Some 1700000010000000000) 1700000000000000000)) (1 / 8) \<and>
   newTimeout 10000 (1 / 8) True = 1250 \<and>
   getNewContext (Some 1700000010000000000) (1 / 8) True 1700000000000000000 1700000000000000000
     = Some 1700000001250000000"
proof -
  have g1: "getDeadline (Some 1700000000040000000) 1700000000000000000 = 40" by code_simp
  have s1: "f64_mul (f64_of_int 40) (1 / 2) = 20" by code_simp
  have g2: "getDeadline (Some 1700000010000000000) 1700000000000000000 = 10000" by code_simp
  have s2: "f64_mul (f64_of_int 10000) (1 / 8) = 1250" by code_simp
  have w2: "wrap64 (int64_of_f64 1250 * 1000000) = 1250000000" by code_simp
  show ?thesis
    using C1_priority_escalation [of "Some 1700000000040000000" 1700000000000000000 "1 / 2" 1700000000000000000]
      C1_priority_escalation [of "Some 1700000010000000000" 1700000000000000000 "1 / 8" 1700000000000000000]
    by (simp add: Let_def g1 s1 g2 s2 w2 context_WithTimeout_def Millisecond_def)
qed





text \<open>
  C3. Whatever the weight, the priority flag and the readings of the clock, the context
  derived from a parent with deadline \<open>d\<close> has a deadline, and it is not later than \<open>d\<close>.
\<close>

theorem C3_derived_not_later:
  "getNewContext (Some d) w pr now1 now2 \<noteq> None \<and>
   Deadline (getNewContext (Some d) w pr now1 now2) \<le> d"
  by (simp add: getNewContext_def context_WithTimeout_def Deadline_def Let_def)

text \<open>
  An instance in which the deadline of the parent is the earlier one: a priority step is
  given the 40 ms that the parent has left, the clock has moved on by 1 ms when the new
  context is made, and the derived context keeps the deadline of the parent.
\<close>

theorem C3_derived_not_later_witness:
  "getDeadline (Some 1700000000040000000) 1700000000000000000 = 40 \<and>
   newTimeout 40 (1 / 2) True = 40 \<and>
   1700000000040000000 < 1700000000001000000 + wrap64 (int64_of_f64 40 * Millisecond) \<and>
   getNewContext (Some 1700000000040000000) (1 / 2) True 1700000000000000000 1700000000001000000
     = Some 1700000000040000000 \<and>
   Deadline (getNewContext (Some 1700000000040000000) (1 / 2) True
      1700000000000000000 1700000000001000000) \<le> 1700000000040000000"
proof -
  have a: "getDeadline (Some 1700000000040000000) 1700000000000000000 = 40" by code_simp
  have b: "newTimeout 40 (1 / 2) True = 40" by code_simp
  have c: "1700000000040000000 < 1700000000001000000 + wrap64 (int64_of_f64 40 * Millisecond)"
    by code_simp
  have d: "getNewContext (Some 1700000000040000000) (1 / 2) True
      1700000000000000000 1700000000001000000 = Some 1700000000040000000"
    by code_simp
  show ?thesis
    using C3_derived_not_later [of 1700000000040000000 "1 / 2" True
        1700000000000000000 1700000000001000000] a b c d
    by simp
qed


section \<open>Configuration is not validated\<close>




section \<open>The outcome of a run\<close>






section \<open>Running a step\<close>

text \<open>
  C7. \<^verbatim>\<open>Run\<close> of a step with a fixed timeout of \<open>timeout f\<close> ms, between 0 and the
  largest number of milliseconds of a \<^verbatim>\<open>time.Duration\<close>, advances the clock by that many
  milliseconds whatever the context it is given, sets the flag of the step, and writes the
  row of the timeout and of the milliseconds that the context has left at that moment.
  Nothing else changes, and there is no other result.
\<close>

theorem C7_fixed_step:
  assumes "heap s p = TimeoutObj f" and "0 \<le> timeout f" and "timeout f \<le> 9223372036854"
  shows "FunctionWithTimeout_Run f ctx s =
      (f\<lparr>isExecuted := True\<rparr>,
       s\<lparr>clock := clock s + timeout f * Millisecond,
         tw := tw s @ [Row (name f) (timeout f)
                 (getDeadline ctx (clock s + timeout f * Millisecond))]\<rparr>) \<and>
    Proccess_Run p ctx s =
      s\<lparr>clock := clock s + timeout f * Millisecond,
        heap := (heap s)(p := TimeoutObj (f\<lparr>isExecuted := True\<rparr>)),
        tw := tw s @ [Row (name f) (timeout f)
                (getDeadline ctx (clock s + timeout f * Millisecond))]\<rparr>"
proof -
  have w: "wrap64 (timeout f * Millisecond) = timeout f * Millisecond"
    using assms(2,3) by (intro wrap64_Millisecond) simp_all
  have m: "max 0 (timeout f * Millisecond) = timeout f * Millisecond"
    using assms(2) by (simp add: Millisecond_def)
  have "FunctionWithTimeout_Run f ctx s =
      (f\<lparr>isExecuted := True\<rparr>,
       s\<lparr>clock := clock s + timeout f * Millisecond,
         tw := tw s @ [Row (name f) (timeout f)
                 (getDeadline ctx (clock s + timeout f * Millisecond))]\<rparr>)"
    using m by (simp add: FunctionWithTimeout_Run_def Let_def w Sleep_nonneg Fprint_def)
  with Proccess_Run_Timeout [OF assms(1), of ctx] show ?thesis by (simp add: w m)
qed

theorem C7_fixed_step_witness:
  "heap (snd (Function_WithTimeout (NewFunction ''A'') 100 start)) 0
     = TimeoutObj \<lparr>name = ''A'', isExecuted = False, timeout = 100\<rparr> \<and>
   getDeadline (Some 1700000000050000000) (clock start) = 50 \<and>
   clock (Proccess_Run 0 (Some 1700000000050000000)
            (snd (Function_WithTimeout (NewFunction ''A'') 100 start))) = 1700000000100000000 \<and>
   tw (Proccess_Run 0 (Some 1700000000050000000)
            (snd (Function_WithTimeout (NewFunction ''A'') 100 start))) = [Row ''A'' 100 (- 50)] \<and>
   Proccess_IsExecuted 0 (Proccess_Run 0 (Some 1700000000050000000)
            (snd (Function_WithTimeout (NewFunction ''A'') 100 start)))"
proof -
  let ?f = "\<lparr>name = ''A'', isExecuted = False, timeout = 100\<rparr>"
  let ?s = "snd (Function_WithTimeout (NewFunction ''A'') 100 start)"
  have h: "heap ?s 0 = TimeoutObj ?f"
    by (simp add: Function_WithTimeout_def NewFunction_def alloc_def start_def)
  have c: "clock ?s = 1700000000000000000" "tw ?s = []"
    by (simp_all add: Function_WithTimeout_def alloc_def start_def)
  have cs: "clock start = 1700000000000000000" by (simp add: start_def)
  have g1: "getDeadline (Some 1700000000050000000) 1700000000000000000 = 50" by code_simp
  have g2: "getDeadline (Some 1700000000050000000) 1700000000100000000 = - 50" by code_simp
  have a: "0 \<le> timeout ?f" "timeout ?f \<le> 9223372036854" by simp_all
  show ?thesis
    using C7_fixed_step [OF h a, of "Some 1700000000050000000"] h
    by (simp add: c cs g1 g2 Millisecond_def Proccess_IsExecuted_def)
qed

text \<open>
  C8. \<^verbatim>\<open>Run\<close> of a weighted step whose derived context has \<open>t \<le> 0\<close> milliseconds left
  does not advance the clock, sets the flag of the step, and writes the row with \<open>t\<close>
  itself and the milliseconds that the parent context has left.
\<close>

theorem C8_exhausted_step:
  assumes "heap s p = DynamicObj f"
    and "t = getDeadline (getNewContext ctx (weight f) (isPriority f) (clock s) (clock s)) (clock s)"
    and "t \<le> 0"
  shows "FunctionWithDynamiContext_Run f ctx s =
      (f\<lparr>isExecuted := True\<rparr>, s\<lparr>tw := tw s @ [Row (name f) t (getDeadline ctx (clock s))]\<rparr>) \<and>
    Proccess_Run p ctx s =
      s\<lparr>heap := (heap s)(p := DynamicObj (f\<lparr>isExecuted := True\<rparr>)),
        tw := tw s @ [Row (name f) t (getDeadline ctx (clock s))]\<rparr>"
proof -
  have "wrap64 (t * Millisecond) = t * Millisecond"
    unfolding assms(2) by (rule getDeadline_Millisecond)
  then have d: "wrap64 (t * Millisecond) \<le> 0" using assms(3) by (simp add: Millisecond_def)
  then have m: "max 0 (wrap64 (t * Millisecond)) = 0" by simp
  have "FunctionWithDynamiContext_Run f ctx s =
      (f\<lparr>isExecuted := True\<rparr>, s\<lparr>tw := tw s @ [Row (name f) t (getDeadline ctx (clock s))]\<rparr>)"
    using d by (simp add: FunctionWithDynamiContext_Run_def Let_def assms(2) [symmetric] Sleep_nonpos Fprint_def)
  with Proccess_Run_Dynamic [OF assms(1), of ctx] m show ?thesis
    by (simp add: Let_def assms(2) [symmetric])
qed

theorem C8_exhausted_step_witness:
  "heap (snd (Function_WithDynamicContext (NewFunction ''B'') (1 / 2) False start)) 0
     = DynamicObj \<lparr>name = ''B'', isExecuted = False, weight = 1 / 2, isPriority = False\<rparr> \<and>
   getDeadline (getNewContext (Some 1699999999995000000) (1 / 2) False (clock start) (clock start))
     (clock start) = - 5 \<and>
   clock (Proccess_Run 0 (Some 1699999999995000000)
            (snd (Function_WithDynamicContext (NewFunction ''B'') (1 / 2) False start))) = clock start \<and>
   tw (Proccess_Run 0 (Some 1699999999995000000)
            (snd (Function_WithDynamicContext (NewFunction ''B'') (1 / 2) False start)))
     = [Row ''B'' (- 5) (- 5)] \<and>
   Proccess_IsExecuted 0 (Proccess_Run 0 (Some 1699999999995000000)
            (snd (Function_WithDynamicContext (NewFunction ''B'') (1 / 2) False start)))"
proof -
  let ?f = "\<lparr>name = ''B'', isExecuted = False, weight = 1 / 2, isPriority = False\<rparr>"
  let ?s = "snd (Function_WithDynamicContext (NewFunction ''B'') (1 / 2) False start)"
  have h: "heap ?s 0 = DynamicObj ?f"
    by (simp add: Function_WithDynamicContext_def NewFunction_def alloc_def start_def)
  have c: "clock ?s = clock start" "tw ?s = []"
    by (simp_all add: Function_WithDynamicContext_def alloc_def start_def)
  have cs: "clock start = 1700000000000000000" by (simp add: start_def)
  have g1: "getDeadline (getNewContext (Some 1699999999995000000) (1 / 2) False
      1700000000000000000 1700000000000000000) 1700000000000000000 = - 5" by code_simp
  have g2: "getDeadline (Some 1699999999995000000) 1700000000000000000 = - 5" by code_simp
  have t: "- 5 = getDeadline (getNewContext (Some 1699999999995000000) (weight ?f) (isPriority ?f)
      (clock ?s) (clock ?s)) (clock ?s)" by (simp add: c cs g1)
  have le: "(- 5 :: int) \<le> 0" by simp
  show ?thesis
    using C8_exhausted_step [OF h t le] h
    by (simp add: c cs g1 g2 Proccess_IsExecuted_def)
qed


section \<open>Registering steps\<close>

text \<open>
  C9. \<^verbatim>\<open>RegisterFunctions\<close> makes the given list the list of steps, whatever list was
  registered before, and leaves the name and the root timeout as they are. The report of
  a run depends on the clock and on the objects of the registered steps only: two states
  with the same clock in which the registered steps are the same objects give the same
  report, whatever else the states hold of steps run and of lines written before.
\<close>

theorem C9_register_replaces:
  "process (RegisterFunctions sim ps) = ps \<and>
   name_sim (RegisterFunctions sim ps) = name_sim sim \<and>
   timeout_sim (RegisterFunctions sim ps) = timeout_sim sim \<and>
   RegisterFunctions (RegisterFunctions sim qs) ps = RegisterFunctions sim ps \<and>
   (clock s1 = clock s2 \<and> (\<forall>q\<in>set ps. heap s1 q = heap s2 q) \<longrightarrow>
      tw (Simulator_Run (RegisterFunctions sim ps) k s1)
        = tw (Simulator_Run (RegisterFunctions sim ps) k s2))"
proof -
  have "tw (Simulator_Run (RegisterFunctions sim ps) k s1)
        = tw (Simulator_Run (RegisterFunctions sim ps) k s2)"
    if "clock s1 = clock s2" "\<forall>q\<in>set ps. heap s1 q = heap s2 q"
    using that by (intro Simulator_Run_agree) (simp_all add: RegisterFunctions_def)
  then show ?thesis by (simp add: RegisterFunctions_def)
qed

theorem C9_register_replaces_witness:
  "clock rerun_world = clock blank_world \<and>
   list_all (\<lambda>q. heap rerun_world q = heap blank_world q) [3] \<and>
   Proccess_IsExecuted 0 rerun_world \<and> \<not> Proccess_IsExecuted 0 blank_world \<and>
   process (RegisterFunctions readme_sim [3]) = [3] \<and>
   tw (Simulator_Run (RegisterFunctions readme_sim [3]) 0 rerun_world) =
     [Rule, Title ''Subscribe'', Header, Row ''Init'' 600 600, Row ''Retry'' 10 590, Done 590, Rule] \<and>
   tw (Simulator_Run (RegisterFunctions readme_sim [3]) 0 blank_world) =
     [Rule, Title ''Subscribe'', Header, Row ''Init'' 600 600, Row ''Retry'' 10 590, Done 590, Rule]"
proof -
  have c: "clock rerun_world = clock blank_world" by code_simp
  have h: "list_all (\<lambda>q. heap rerun_world q = heap blank_world q) [3]" by code_simp
  have e: "Proccess_IsExecuted 0 rerun_world" "\<not> Proccess_IsExecuted 0 blank_world"
    by code_simp+
  have r: "tw (Simulator_Run (RegisterFunctions readme_sim [3]) 0 blank_world) =
     [Rule, Title ''Subscribe'', Header, Row ''Init'' 600 600, Row ''Retry'' 10 590, Done 590, Rule]"
    by code_simp
  show ?thesis
    using C9_register_replaces [where sim = readme_sim and ps = "[3]" and qs = "process readme_sim"
        and ?s1.0 = rerun_world and ?s2.0 = blank_world and k = 0] c h e r
    by simp
qed


section \<open>The flag of a step\<close>

text \<open>
  C10. A step built from \<^verbatim>\<open>NewFunction\<close> by \<^verbatim>\<open>WithTimeout\<close> or \<^verbatim>\<open>WithDynamicContext\<close> has
  \<^verbatim>\<open>IsExecuted() = false\<close>. \<^verbatim>\<open>Run\<close> of a step sets the flag of this step and changes no
  other object; \<^verbatim>\<open>Run\<close> of a simulator changes no object outside its list. A flag that is
  set stays set through \<^verbatim>\<open>Run\<close> of any step and \<^verbatim>\<open>Run\<close> of any simulator, and building a
  further step changes no object that exists. Two steps built from one \<^verbatim>\<open>Function\<close> value
  are two objects: running the first leaves the flag of the second unset.
\<close>

theorem C10_executed_flag:
  "\<not> Proccess_IsExecuted (fst (Function_WithTimeout (NewFunction n) t s))
        (snd (Function_WithTimeout (NewFunction n) t s)) \<and>
   \<not> Proccess_IsExecuted (fst (Function_WithDynamicContext (NewFunction n) wt pr s))
        (snd (Function_WithDynamicContext (NewFunction n) wt pr s)) \<and>
   Proccess_IsExecuted p (Proccess_Run p ctx s) \<and>
   (q \<noteq> p \<longrightarrow> heap (Proccess_Run p ctx s) q = heap s q) \<and>
   (q \<notin> set (process sim) \<longrightarrow> heap (Simulator_Run sim k s) q = heap s q) \<and>
   (q < free s \<longrightarrow>
      heap (snd (Function_WithTimeout f t s)) q = heap s q \<and>
      heap (snd (Function_WithDynamicContext f wt pr s)) q = heap s q) \<and>
   (Proccess_IsExecuted q s \<longrightarrow>
      Proccess_IsExecuted q (Proccess_Run p ctx s) \<and>
      Proccess_IsExecuted q (Simulator_Run sim k s)) \<and>
   (case Function_WithTimeout (NewFunction n) t s of (p1, s1) \<Rightarrow>
    case Function_WithDynamicContext (NewFunction n) wt pr s1 of (p2, s2) \<Rightarrow>
      p1 \<noteq> p2 \<and>
      Proccess_IsExecuted p1 (Proccess_Run p1 ctx s2) \<and>
      \<not> Proccess_IsExecuted p2 (Proccess_Run p1 ctx s2))"
proof -
  have fresh1: "\<not> Proccess_IsExecuted (fst (Function_WithTimeout (NewFunction n) t s))
        (snd (Function_WithTimeout (NewFunction n) t s))"
    by (simp add: Function_WithTimeout_def NewFunction_def alloc_def Proccess_IsExecuted_def)
  have fresh2: "\<not> Proccess_IsExecuted (fst (Function_WithDynamicContext (NewFunction n) wt pr s))
        (snd (Function_WithDynamicContext (NewFunction n) wt pr s))"
    by (simp add: Function_WithDynamicContext_def NewFunction_def alloc_def Proccess_IsExecuted_def)
  have build: "heap (snd (Function_WithTimeout f t s)) q = heap s q \<and>
         heap (snd (Function_WithDynamicContext f wt pr s)) q = heap s q"
    if "q < free s"
    using that
    by (simp add: Function_WithTimeout_def Function_WithDynamicContext_def alloc_keeps)
  have two: "(case Function_WithTimeout (NewFunction n) t s of (p1, s1) \<Rightarrow>
    case Function_WithDynamicContext (NewFunction n) wt pr s1 of (p2, s2) \<Rightarrow>
      p1 \<noteq> p2 \<and>
      Proccess_IsExecuted p1 (Proccess_Run p1 ctx s2) \<and>
      \<not> Proccess_IsExecuted p2 (Proccess_Run p1 ctx s2))"
    by (simp add: Function_WithTimeout_def Function_WithDynamicContext_def alloc_def
        NewFunction_def Proccess_Run_IsExecuted)
      (simp add: Proccess_IsExecuted_def)
  show ?thesis
    using fresh1 fresh2 build two Proccess_Run_self [of p ctx s]
      Proccess_Run_other [of q p ctx s] Simulator_Run_other [of q sim k s]
      Proccess_Run_keeps [of q s p ctx] Simulator_Run_keeps [of q s sim k]
    by blast
qed

theorem C10_executed_flag_witness:
  "(0::nat) \<noteq> 1 \<and> 0 \<notin> set (process again_sim) \<and> Proccess_IsExecuted 0 rerun_world \<and>
   0 < free rerun_world \<and>
   Proccess_IsExecuted 1 (Proccess_Run 1 (Some 1700000001000000000) rerun_world) \<and>
   heap (Proccess_Run 1 (Some 1700000001000000000) rerun_world) 0 = heap rerun_world 0 \<and>
   heap (Simulator_Run again_sim 0 rerun_world) 0 = heap rerun_world 0 \<and>
   Proccess_IsExecuted 0 (Proccess_Run 1 (Some 1700000001000000000) rerun_world) \<and>
   Proccess_IsExecuted 0 (Simulator_Run again_sim 0 rerun_world) \<and>
   heap (snd (Function_WithTimeout (NewFunction ''Input validation'') 20 rerun_world)) 0
     = heap rerun_world 0 \<and>
   Proccess_IsExecuted 1 (Simulator_Run again_sim 0 rerun_world) \<and>
   tw (Simulator_Run again_sim 0 rerun_world) =
     [Rule, Title ''Again'', Header, Row ''Init'' 1 1, TimeoutReached, Unexecuted ''Retry'', Rule]"
proof -
  have a: "0 \<notin> set (process again_sim)" by code_simp
  have b: "Proccess_IsExecuted 0 rerun_world" by code_simp
  have c: "0 < free rerun_world" by code_simp
  have d: "Proccess_IsExecuted 1 (Simulator_Run again_sim 0 rerun_world)" by code_simp
  have e: "tw (Simulator_Run again_sim 0 rerun_world) =
     [Rule, Title ''Again'', Header, Row ''Init'' 1 1, TimeoutReached, Unexecuted ''Retry'', Rule]"
    by code_simp
  show ?thesis
    using C10_executed_flag [where s = rerun_world and p = 1 and q = 0 and sim = again_sim and k = 0
        and ctx = "Some 1700000001000000000" and f = "NewFunction ''Input validation''"
        and t = 20 and n = "''Input validation''" and wt = "1 / 2" and pr = True] a b c d e
    by simp
qed

end
